theory Spec2Isabelle
  imports Main
begin

section \<open>Byte streams: the environment of the client\<close>

text \<open>
  The client of \<^verbatim>\<open>pkg/telnet/telnet.go\<close> talks to three objects it does not
  implement: the input stream (an \<^verbatim>\<open>io.ReadCloser\<close>), the output stream (an
  \<^verbatim>\<open>io.Writer\<close>) and the connection (a \<^verbatim>\<open>net.Conn\<close>). One record describes
  all three. A stream answers its \<^verbatim>\<open>Read\<close> calls from a finite script of events
  (the bytes that are available, and the error reported with them), keeps the bytes
  written to it, and counts every call made on it, so that "no I/O was performed" is
  the statement that the stream did not change.
\<close>

type_synonym byte = char

text \<open>
  The errors that come from outside the client, told apart as far as the client tells
  them apart: \<^verbatim>\<open>io.EOF\<close>, \<^verbatim>\<open>net.ErrClosed\<close>, the two errors the buffered reader
  makes itself (\<^verbatim>\<open>io.ErrNoProgress\<close>, \<^verbatim>\<open>bufio.ErrBufferFull\<close>), and any other,
  by a number.
\<close>

datatype io_err = EOF | NetErrClosed | ErrNoProgress | ErrBufferFull | OtherErr nat

record stream =
  rd_events :: "(byte list \<times> io_err option) list"
  rd_calls :: nat
  wr_data :: "byte list"
  wr_fail :: "(nat \<times> io_err) option"
  wr_calls :: nat
  cl_results :: "io_err option list"
  cl_calls :: nat

text \<open>
  \<^verbatim>\<open>Read(p)\<close> with \<open>k = len(p)\<close>: at most \<open>k\<close> bytes of the next event are
  delivered; what does not fit stays available, and the event's error is reported
  with its last byte. A stream whose script is used up is at its end.
\<close>

definition Read_io :: "stream \<Rightarrow> nat \<Rightarrow> (byte list \<times> io_err option) \<times> stream" where
  "Read_io s k =
     (case rd_events s of
        [] \<Rightarrow> (([], Some EOF), s\<lparr>rd_calls := Suc (rd_calls s)\<rparr>)
      | (bs, e) # rest \<Rightarrow>
          if length bs \<le> k
          then ((bs, e), s\<lparr>rd_events := rest, rd_calls := Suc (rd_calls s)\<rparr>)
          else ((take k bs, None),
                s\<lparr>rd_events := (drop k bs, e) # rest, rd_calls := Suc (rd_calls s)\<rparr>))"

text \<open>
  \<^verbatim>\<open>Write(data)\<close>: a healthy stream takes all the bytes; a failing one takes the
  first \<open>n\<close> and reports its error.
\<close>

definition Write_io :: "stream \<Rightarrow> byte list \<Rightarrow> io_err option \<times> stream" where
  "Write_io s data =
     (case wr_fail s of
        None \<Rightarrow> (None, s\<lparr>wr_data := wr_data s @ data, wr_calls := Suc (wr_calls s)\<rparr>)
      | Some (n, e) \<Rightarrow>
          (Some e, s\<lparr>wr_data := wr_data s @ take n data, wr_calls := Suc (wr_calls s)\<rparr>))"

text \<open>\<^verbatim>\<open>Close()\<close>: the results of successive calls are scripted; the default is success.\<close>

definition Close_io :: "stream \<Rightarrow> io_err option \<times> stream" where
  "Close_io s =
     (case cl_results s of
        [] \<Rightarrow> (None, s\<lparr>cl_calls := Suc (cl_calls s)\<rparr>)
      | r # rs \<Rightarrow> (r, s\<lparr>cl_results := rs, cl_calls := Suc (cl_calls s)\<rparr>))"

section \<open>The buffered reader of the standard library\<close>

text \<open>
  \<^verbatim>\<open>readOut\<close> wraps its source in \<^verbatim>\<open>bufio.NewReader\<close> and calls
  \<^verbatim>\<open>ReadBytes\<close> and \<^verbatim>\<open>Buffered\<close>. The definitions below follow the Go standard
  library (\<^verbatim>\<open>bufio/bufio.go\<close>): \<open>buf\<close> is the unread part \<^verbatim>\<open>b.buf[b.r:b.w]\<close> of
  the buffer, whose capacity is \<^verbatim>\<open>defaultBufSize\<close>.
\<close>

definition defaultBufSize :: nat where
  "defaultBufSize = 4096"

definition maxConsecutiveEmptyReads :: nat where
  "maxConsecutiveEmptyReads = 100"

record reader =
  buf :: "byte list"
  err :: "io_err option"
  rd :: stream

definition NewReader :: "stream \<Rightarrow> reader" where
  "NewReader s = \<lparr>buf = [], err = None, rd = s\<rparr>"

definition Buffered :: "reader \<Rightarrow> nat" where
  "Buffered b = length (buf b)"

text \<open>
  \<^verbatim>\<open>fill\<close> reads once into the free part of the buffer, and again while a read
  brings neither bytes nor an error, at most \<^verbatim>\<open>maxConsecutiveEmptyReads\<close> times.
  (\<^verbatim>\<open>ReadSlice\<close> calls it only when the buffer is not full, so its guard against
  a full buffer never fires.)
\<close>

fun fill_loop :: "nat \<Rightarrow> reader \<Rightarrow> reader" where
  "fill_loop 0 b = b\<lparr>err := Some ErrNoProgress\<rparr>"
| "fill_loop (Suc i) b =
     (case Read_io (rd b) (defaultBufSize - length (buf b)) of
        ((p, e), s) \<Rightarrow>
          (let b' = b\<lparr>buf := buf b @ p, rd := s\<rparr> in
           if e \<noteq> None then b'\<lparr>err := e\<rparr>
           else if length p > 0 then b'
           else fill_loop i b'))"

definition fill :: "reader \<Rightarrow> reader" where
  "fill b = fill_loop maxConsecutiveEmptyReads b"

text \<open>\<^verbatim>\<open>bytes.IndexByte\<close>: the index of the first occurrence, if any.\<close>

fun IndexByte :: "byte list \<Rightarrow> byte \<Rightarrow> nat option" where
  "IndexByte [] c = None"
| "IndexByte (x # xs) c = (if x = c then Some 0 else map_option Suc (IndexByte xs c))"

lemma fill_loop_progress:
  "err (fill_loop i b) \<noteq> None \<or> length (buf b) < length (buf (fill_loop i b))"
proof (induction i arbitrary: b)
  case 0
  show ?case by simp
next
  case (Suc i)
  obtain p e s where R: "Read_io (rd b) (defaultBufSize - length (buf b)) = ((p, e), s)"
    by (metis surj_pair)
  show ?case
  proof (cases "e \<noteq> None")
    case True
    with R show ?thesis by auto
  next
    case False
    note noerr = this
    show ?thesis
    proof (cases "length p > 0")
      case True
      with R noerr show ?thesis by simp
    next
      case False
      with R noerr Suc.IH [of "b\<lparr>buf := buf b @ p, rd := s\<rparr>"] show ?thesis by simp
    qed
  qed
qed

text \<open>
  \<^verbatim>\<open>ReadSlice\<close>: search the buffer from offset \<open>s\<close>; hand out a pending error
  with all the buffered bytes; report a full buffer; otherwise fill and search again.
\<close>

function ReadSlice_loop :: "byte \<Rightarrow> nat \<Rightarrow> reader \<Rightarrow> (byte list \<times> io_err option) \<times> reader" where
  "ReadSlice_loop delim s b =
     (case IndexByte (drop s (buf b)) delim of
        Some i \<Rightarrow>
          ((take (i + s + 1) (buf b), None), b\<lparr>buf := drop (i + s + 1) (buf b)\<rparr>)
      | None \<Rightarrow>
          if err b \<noteq> None then ((buf b, err b), b\<lparr>buf := [], err := None\<rparr>)
          else if Buffered b \<ge> defaultBufSize then ((buf b, Some ErrBufferFull), b\<lparr>buf := []\<rparr>)
          else ReadSlice_loop delim (length (buf b)) (fill b))"
  by pat_completeness auto
termination
proof (relation "measure (\<lambda>(delim, s, b).
         if err b \<noteq> None then 0 else Suc defaultBufSize - length (buf b))")
  show "wf (measure (\<lambda>(delim, s, b).
         if err b \<noteq> None then 0 else Suc defaultBufSize - length (buf b)))"
    by simp
next
  fix delim :: byte and s :: nat and b :: reader
  assume "\<not> err b \<noteq> None" and nf: "\<not> defaultBufSize \<le> Buffered b"
  then have e: "err b = None" by simp
  from nf have lt: "length (buf b) < defaultBufSize" by (simp add: Buffered_def)
  from fill_loop_progress [of maxConsecutiveEmptyReads b]
  have "err (fill b) \<noteq> None \<or> length (buf b) < length (buf (fill b))"
    by (simp add: fill_def)
  with e lt
  show "((delim, length (buf b), fill b), (delim, s, b)) \<in> measure (\<lambda>(delim, s, b).
         if err b \<noteq> None then 0 else Suc defaultBufSize - length (buf b))"
    by auto
qed

declare ReadSlice_loop.simps [simp del]

definition ReadSlice :: "byte \<Rightarrow> reader \<Rightarrow> (byte list \<times> io_err option) \<times> reader" where
  "ReadSlice delim b = ReadSlice_loop delim 0 b"

text \<open>
  The weight of a reader counts the bytes it can still deliver (those in the buffer and
  those in the script of its source) and the buffer-full errors waiting in them. No
  step of the reader raises it, which bounds the recursions built on \<^verbatim>\<open>ReadSlice\<close>.
\<close>

definition pending :: "stream \<Rightarrow> nat" where
  "pending s =
     sum_list (map (\<lambda>(bs, e). length bs + (if e = Some ErrBufferFull then 1 else 0)) (rd_events s))"

definition weight :: "reader \<Rightarrow> nat" where
  "weight b = length (buf b) + (if err b = Some ErrBufferFull then 1 else 0) + pending (rd b)"

lemma Read_io_pending:
  "Read_io s k = ((p, e), s') \<Longrightarrow>
     pending s' + length p + (if e = Some ErrBufferFull then 1 else 0) = pending s"
  by (auto simp: Read_io_def pending_def split: list.splits if_splits)

lemma fill_loop_weight: "weight (fill_loop i b) \<le> weight b"
proof (induction i arbitrary: b)
  case 0
  show ?case by (simp add: weight_def)
next
  case (Suc i)
  obtain p e s where R: "Read_io (rd b) (defaultBufSize - length (buf b)) = ((p, e), s)"
    by (metis surj_pair)
  from Read_io_pending [OF R]
  have P: "pending s + length p + (if e = Some ErrBufferFull then 1 else 0) = pending (rd b)" .
  show ?case
  proof (cases "e \<noteq> None")
    case True
    with R P show ?thesis by (auto simp: weight_def)
  next
    case False
    note noerr = this
    show ?thesis
    proof (cases "length p > 0")
      case True
      with R P noerr show ?thesis by (auto simp: weight_def)
    next
      case False
      with R P noerr Suc.IH [of "b\<lparr>buf := buf b @ p, rd := s\<rparr>"] show ?thesis
        by (auto simp: weight_def)
    qed
  qed
qed

lemma fill_weight: "weight (fill b) \<le> weight b"
  by (simp add: fill_def fill_loop_weight)

lemma IndexByte_Some:
  "IndexByte xs c = Some i \<Longrightarrow> i < length xs \<and> xs ! i = c"
  by (induction xs arbitrary: i) (auto split: if_splits)

lemma IndexByte_None: "IndexByte xs c = None \<longleftrightarrow> c \<notin> set xs"
  by (induction xs) auto

lemma ReadSlice_loop_weight:
  "ReadSlice_loop delim s b = ((line, e), b') \<Longrightarrow> weight b' + length line \<le> weight b"
proof (induction delim s b rule: ReadSlice_loop.induct)
  case (1 delim s b)
  show ?case
  proof (cases "IndexByte (drop s (buf b)) delim")
    case (Some i)
    with "1.prems" show ?thesis
      by (subst (asm) ReadSlice_loop.simps) (auto simp: weight_def)
  next
    case None
    note nf = this
    show ?thesis
    proof (cases "err b \<noteq> None")
      case True
      with nf "1.prems" show ?thesis
        by (subst (asm) ReadSlice_loop.simps) (auto simp: weight_def)
    next
      case False
      note ne = this
      show ?thesis
      proof (cases "Buffered b \<ge> defaultBufSize")
        case True
        with nf ne "1.prems" show ?thesis
          by (subst (asm) ReadSlice_loop.simps) (auto simp: weight_def)
      next
        case False
        with nf ne "1.prems" have "ReadSlice_loop delim (length (buf b)) (fill b) = ((line, e), b')"
          by (subst (asm) ReadSlice_loop.simps) simp
        from "1.IH" [OF nf ne False this] fill_weight [of b] show ?thesis by simp
      qed
    qed
  qed
qed

lemma ReadSlice_loop_full:
  "ReadSlice_loop delim s b = ((line, Some ErrBufferFull), b') \<Longrightarrow> weight b' < weight b"
proof (induction delim s b rule: ReadSlice_loop.induct)
  case (1 delim s b)
  show ?case
  proof (cases "IndexByte (drop s (buf b)) delim")
    case (Some i)
    with "1.prems" show ?thesis
      by (subst (asm) ReadSlice_loop.simps) (auto simp: weight_def)
  next
    case None
    note nf = this
    show ?thesis
    proof (cases "err b \<noteq> None")
      case True
      with nf "1.prems" show ?thesis
        by (subst (asm) ReadSlice_loop.simps) (auto simp: weight_def)
    next
      case False
      note ne = this
      show ?thesis
      proof (cases "Buffered b \<ge> defaultBufSize")
        case True
        with nf ne "1.prems" show ?thesis
          by (subst (asm) ReadSlice_loop.simps)
             (auto simp: weight_def Buffered_def defaultBufSize_def)
      next
        case False
        with nf ne "1.prems"
        have "ReadSlice_loop delim (length (buf b)) (fill b) = ((line, Some ErrBufferFull), b')"
          by (subst (asm) ReadSlice_loop.simps) simp
        from "1.IH" [OF nf ne False this] fill_weight [of b] show ?thesis by simp
      qed
    qed
  qed
qed

lemma ReadSlice_loop_line:
  "ReadSlice_loop delim s b = ((line, None), b') \<Longrightarrow> line \<noteq> [] \<and> last line = delim"
proof (induction delim s b rule: ReadSlice_loop.induct)
  case (1 delim s b)
  show ?case
  proof (cases "IndexByte (drop s (buf b)) delim")
    case (Some i)
    from IndexByte_Some [OF Some]
    have i: "i + s < length (buf b)" and d: "buf b ! (i + s) = delim"
      by (auto simp: add.commute)
    from Some "1.prems" have l: "line = take (Suc (i + s)) (buf b)"
      by (subst (asm) ReadSlice_loop.simps) auto
    with i d show ?thesis
      by (simp add: take_Suc_conv_app_nth)
  next
    case None
    note nf = this
    show ?thesis
    proof (cases "err b \<noteq> None")
      case True
      with nf "1.prems" show ?thesis
        by (subst (asm) ReadSlice_loop.simps) auto
    next
      case False
      note ne = this
      show ?thesis
      proof (cases "Buffered b \<ge> defaultBufSize")
        case True
        with nf ne "1.prems" show ?thesis
          by (subst (asm) ReadSlice_loop.simps) auto
      next
        case False
        with nf ne "1.prems"
        have "ReadSlice_loop delim (length (buf b)) (fill b) = ((line, None), b')"
          by (subst (asm) ReadSlice_loop.simps) simp
        from "1.IH" [OF nf ne False this] show ?thesis .
      qed
    qed
  qed
qed

lemma ReadSlice_loop_err:
  "ReadSlice_loop delim s b = ((line, Some x), b') \<Longrightarrow> buf b' = []"
proof (induction delim s b rule: ReadSlice_loop.induct)
  case (1 delim s b)
  show ?case
  proof (cases "IndexByte (drop s (buf b)) delim")
    case (Some i)
    with "1.prems" show ?thesis
      by (subst (asm) ReadSlice_loop.simps) auto
  next
    case None
    note nf = this
    show ?thesis
    proof (cases "err b \<noteq> None")
      case True
      with nf "1.prems" show ?thesis
        by (subst (asm) ReadSlice_loop.simps) auto
    next
      case False
      note ne = this
      show ?thesis
      proof (cases "Buffered b \<ge> defaultBufSize")
        case True
        with nf ne "1.prems" show ?thesis
          by (subst (asm) ReadSlice_loop.simps) auto
      next
        case False
        with nf ne "1.prems"
        have "ReadSlice_loop delim (length (buf b)) (fill b) = ((line, Some x), b')"
          by (subst (asm) ReadSlice_loop.simps) simp
        from "1.IH" [OF nf ne False this] show ?thesis .
      qed
    qed
  qed
qed

text \<open>
  \<^verbatim>\<open>collectFragments\<close>: call \<^verbatim>\<open>ReadSlice\<close> until it finds the delimiter or
  fails with an error other than a full buffer, keeping every full buffer met on the
  way.
\<close>

function collectFragments_loop ::
  "byte \<Rightarrow> byte list list \<Rightarrow> nat \<Rightarrow> reader \<Rightarrow>
     (byte list list \<times> byte list \<times> nat \<times> io_err option) \<times> reader" where
  "collectFragments_loop delim fullBuffers totalLen b =
     (case ReadSlice delim b of
        ((frag, e), b') \<Rightarrow>
          if e = None then ((fullBuffers, frag, totalLen + length frag, None), b')
          else if e \<noteq> Some ErrBufferFull
          then ((fullBuffers, frag, totalLen + length frag, e), b')
          else collectFragments_loop delim (fullBuffers @ [frag]) (totalLen + length frag) b')"
  by pat_completeness auto
termination
  apply (relation "measure (\<lambda>(delim, fullBuffers, totalLen, b). weight b)")
   apply simp
  apply (auto simp: ReadSlice_def dest: ReadSlice_loop_full [OF sym])
  done

declare collectFragments_loop.simps [simp del]

definition collectFragments ::
  "byte \<Rightarrow> reader \<Rightarrow> (byte list list \<times> byte list \<times> nat \<times> io_err option) \<times> reader" where
  "collectFragments delim b = collectFragments_loop delim [] 0 b"

text \<open>
  \<^verbatim>\<open>ReadBytes\<close> allocates \<open>n\<close> bytes and copies the full buffers and the last
  fragment into them.
\<close>

definition ReadBytes :: "byte \<Rightarrow> reader \<Rightarrow> (byte list \<times> io_err option) \<times> reader" where
  "ReadBytes delim b =
     (case collectFragments delim b of
        ((full, frag, n, e), b') \<Rightarrow> ((take n (concat full @ frag), e), b'))"

lemma collectFragments_loop_props:
  "collectFragments_loop delim full n b = ((full', frag, n', e), b') \<Longrightarrow>
     n = length (concat full) \<Longrightarrow>
     n' = length (concat full' @ frag) \<and>
     (e = None \<longrightarrow> frag \<noteq> [] \<and> last frag = delim \<and> weight b' < weight b) \<and>
     (e \<noteq> None \<longrightarrow> buf b' = [])"
proof (induction delim full n b rule: collectFragments_loop.induct)
  case (1 delim fullBuffers totalLen b)
  obtain f x b1 where R: "ReadSlice delim b = ((f, x), b1)"
    by (metis surj_pair)
  then have RL: "ReadSlice_loop delim 0 b = ((f, x), b1)"
    by (simp add: ReadSlice_def)
  show ?case
  proof (cases "x = None")
    case True
    with R "1.prems"(1) have "((fullBuffers, f, totalLen + length f, None), b1) =
        ((full', frag, n', e), b')"
      by (subst (asm) collectFragments_loop.simps) auto
    then have eq: "full' = fullBuffers" "frag = f" "n' = totalLen + length f"
      "e = None" "b' = b1"
      by auto
    from RL True ReadSlice_loop_line [of delim 0 b f b1]
    have "f \<noteq> [] \<and> last f = delim" by simp
    moreover from ReadSlice_loop_weight [OF RL] have "weight b1 + length f \<le> weight b" .
    ultimately show ?thesis using eq "1.prems"(2) by (cases f) auto
  next
    case False
    note xerr = this
    show ?thesis
    proof (cases "x \<noteq> Some ErrBufferFull")
      case True
      with xerr R "1.prems"(1) have "((fullBuffers, f, totalLen + length f, x), b1) =
          ((full', frag, n', e), b')"
        by (subst (asm) collectFragments_loop.simps) auto
      then have eq: "full' = fullBuffers" "frag = f"
        "n' = totalLen + length f" "e = x" "b' = b1"
        by auto
      from xerr obtain y where "x = Some y" by auto
      with RL ReadSlice_loop_err [of delim 0 b f y b1] have "buf b1 = []" by simp
      with eq xerr "1.prems"(2) show ?thesis by auto
    next
      case False
      with xerr R "1.prems"(1)
      have rec: "collectFragments_loop delim (fullBuffers @ [f]) (totalLen + length f) b1 =
                   ((full', frag, n', e), b')"
        by (subst (asm) collectFragments_loop.simps) auto
      from "1.prems"(2) have len: "totalLen + length f = length (concat (fullBuffers @ [f]))"
        by simp
      from False RL have "ReadSlice_loop delim 0 b = ((f, Some ErrBufferFull), b1)" by simp
      from ReadSlice_loop_full [OF this] have lt: "weight b1 < weight b" .
      from "1.IH" [OF R [symmetric] refl xerr False rec len] lt
      show ?thesis by auto
    qed
  qed
qed

lemma ReadBytes_concat:
  "ReadBytes delim b =
     (case collectFragments delim b of
        ((full, frag, n, e), b') \<Rightarrow> ((concat full @ frag, e), b'))"
proof -
  obtain full frag n e b' where C: "collectFragments delim b = ((full, frag, n, e), b')"
    by (metis surj_pair)
  then have "collectFragments_loop delim [] 0 b = ((full, frag, n, e), b')"
    by (simp add: collectFragments_def)
  from collectFragments_loop_props [OF this] have "n = length (concat full @ frag)" by simp
  with C show ?thesis by (simp add: ReadBytes_def)
qed

lemma ReadBytes_props:
  assumes "ReadBytes delim b = ((line, e), b')"
  shows "e = None \<Longrightarrow> line \<noteq> []"
    and "e = None \<Longrightarrow> last line = delim"
    and "e = None \<Longrightarrow> weight b' < weight b"
    and "e \<noteq> None \<Longrightarrow> buf b' = []"
proof -
  obtain full frag n x b1 where C: "collectFragments delim b = ((full, frag, n, x), b1)"
    by (metis surj_pair)
  with assms have eq: "line = concat full @ frag" "e = x" "b' = b1"
    by (simp_all add: ReadBytes_concat)
  from C have "collectFragments_loop delim [] 0 b = ((full, frag, n, x), b1)"
    by (simp add: collectFragments_def)
  from collectFragments_loop_props [OF this]
  have P: "(x = None \<longrightarrow> frag \<noteq> [] \<and> last frag = delim \<and> weight b1 < weight b)"
    "(x \<noteq> None \<longrightarrow> buf b1 = [])"
    by simp_all
  from P eq show "e = None \<Longrightarrow> line \<noteq> []" by simp
  from P eq show "e = None \<Longrightarrow> last line = delim" by simp
  from P eq show "e = None \<Longrightarrow> weight b' < weight b" by simp
  from P eq show "e \<noteq> None \<Longrightarrow> buf b' = []" by simp
qed

section \<open>The client\<close>

text \<open>
  The errors the client returns: the sentinel \<^verbatim>\<open>ErrEOT\<close> itself, and the errors
  built by \<^verbatim>\<open>fmt.Errorf\<close>, each holding what it was built from. \<^verbatim>\<open>ConnClosed\<close>
  is the error that wraps the sentinel \<^verbatim>\<open>ErrConnClosed\<close> and its cause.
\<close>

datatype error =
    ErrEOT
  | ConnectionFailed io_err
  | NilParameter string bool bool
  | ConnClosed io_err
  | ReadingFailed io_err
  | WriteFailed io_err

text \<open>
  \<^verbatim>\<open>errors.Is\<close> against the two sentinels of the package, as the caller in
  \<^verbatim>\<open>cmd/main.go\<close> uses it.
\<close>

fun is_ErrEOT :: "error \<Rightarrow> bool" where
  "is_ErrEOT ErrEOT = True"
| "is_ErrEOT _ = False"

fun is_ErrConnClosed :: "error \<Rightarrow> bool" where
  "is_ErrConnClosed (ConnClosed _) = True"
| "is_ErrConnClosed _ = False"

definition newline :: byte where
  "newline = CHR 0x0A"

text \<open>
  \<^verbatim>\<open>readOut\<close> (telnet.go, lines 151 to 174): the loop over \<^verbatim>\<open>ReadBytes\<close>, with
  \<open>res\<close> the accumulator. Every way out that reports an error returns \<^verbatim>\<open>nil\<close>
  for the data, whatever \<open>res\<close> holds. The function returns the reader too, whose
  source has been read from.
\<close>

function readOut_loop :: "byte list \<Rightarrow> reader \<Rightarrow> (error + byte list) \<times> reader" where
  "readOut_loop res b =
     (case ReadBytes newline b of
        ((line, e), b') \<Rightarrow>
          (let res' = res @ line in
           case e of
             Some x \<Rightarrow>
               if x = EOF then
                 (if Buffered b' = 0 then (Inl ErrEOT, b')
                  else readOut_loop res' b')
               else if x = NetErrClosed then (Inl (ConnClosed x), b')
               else (Inl (ReadingFailed x), b')
           | None \<Rightarrow>
               if Buffered b' = 0 then (Inr res', b')
               else readOut_loop res' b'))"
  by pat_completeness auto
termination
  apply (relation "measure (\<lambda>(res, b). weight b)")
    apply simp
   apply (auto simp: Buffered_def dest: ReadBytes_props(4) [OF sym] ReadBytes_props(3) [OF sym])
  done

declare readOut_loop.simps [simp del]

text \<open>A fresh \<^verbatim>\<open>bufio.Reader\<close> is made for every call and dropped at its end.\<close>

definition readOut :: "stream \<Rightarrow> (error + byte list) \<times> stream" where
  "readOut r = (case readOut_loop [] (NewReader r) of (res, b) \<Rightarrow> (res, rd b))"

text \<open>
  \<^verbatim>\<open>writeOut\<close> (lines 177 to 186): one \<^verbatim>\<open>Write\<close>, whose count of bytes is not
  looked at.
\<close>

definition writeOut :: "stream \<Rightarrow> byte list \<Rightarrow> error option \<times> stream" where
  "writeOut w data =
     (case Write_io w data of
        (None, w') \<Rightarrow> (None, w')
      | (Some x, w') \<Rightarrow>
          if x = NetErrClosed then (Some (ConnClosed x), w')
          else (Some (WriteFailed x), w'))"

text \<open>
  \<^verbatim>\<open>sync.RWMutex\<close>, as one thread of control sees it: a call that would wait
  for a lock nobody will release never returns, and neither does an unlock of a mutex
  that is not locked (the runtime stops the program). \<open>None\<close> is such a call.
\<close>

record rwmutex =
  readers :: nat
  writer :: bool

definition RLock :: "rwmutex \<Rightarrow> rwmutex option" where
  "RLock m = (if writer m then None else Some (m\<lparr>readers := Suc (readers m)\<rparr>))"

definition RUnlock :: "rwmutex \<Rightarrow> rwmutex option" where
  "RUnlock m = (if readers m = 0 then None else Some (m\<lparr>readers := readers m - 1\<rparr>))"

definition Lock :: "rwmutex \<Rightarrow> rwmutex option" where
  "Lock m = (if writer m \<or> readers m > 0 then None else Some (m\<lparr>writer := True\<rparr>))"

definition Unlock :: "rwmutex \<Rightarrow> rwmutex option" where
  "Unlock m = (if writer m then Some (m\<lparr>writer := False\<rparr>) else None)"

text \<open>
  The streams live in a store; the client holds handles to them, \<open>None\<close> for
  \<^verbatim>\<open>nil\<close>.
\<close>

type_synonym handle = nat
type_synonym store = "handle \<Rightarrow> stream"

record client =
  mu :: rwmutex
  address :: string
  timeout :: int
  inp :: "handle option"
  out :: "handle option"
  conn :: "handle option"

definition NewClient :: "string \<Rightarrow> int \<Rightarrow> handle option \<Rightarrow> handle option \<Rightarrow> client" where
  "NewClient a t i ou =
     \<lparr>mu = \<lparr>readers = 0, writer = False\<rparr>, address = a, timeout = t,
      inp = i, out = ou, conn = None\<rparr>"

text \<open>
  \<^verbatim>\<open>NewClient\<close> (lines 56 to 63) stores its four parameters and checks nothing.
  \<^verbatim>\<open>Connect\<close> (lines 66 to 78) reads address and timeout under the read lock,
  dials without it, and stores the connection under the write lock; \<open>dial\<close> stands
  for \<^verbatim>\<open>net.DialTimeout\<close>, given the network, the address and the timeout.
\<close>

definition Connect ::
  "(string \<Rightarrow> string \<Rightarrow> int \<Rightarrow> io_err + handle) \<Rightarrow> client \<Rightarrow> (error option \<times> client) option" where
  "Connect dial c =
     (case RLock (mu c) of
        None \<Rightarrow> None
      | Some m1 \<Rightarrow>
          (let a = address c; t = timeout c in
           case RUnlock m1 of
             None \<Rightarrow> None
           | Some m2 \<Rightarrow>
               (case dial ''tcp'' a t of
                  Inl e \<Rightarrow> Some (Some (ConnectionFailed e), c\<lparr>mu := m2\<rparr>)
                | Inr cn \<Rightarrow>
                    (case Lock m2 of
                       None \<Rightarrow> None
                     | Some m3 \<Rightarrow>
                         (case Unlock m3 of
                            None \<Rightarrow> None
                          | Some m4 \<Rightarrow> Some (None, c\<lparr>mu := m4, conn := Some cn\<rparr>))))))"

definition close_at :: "store \<Rightarrow> handle \<Rightarrow> io_err option \<times> store" where
  "close_at h r = (case Close_io (h r) of (e, s) \<Rightarrow> (e, h(r := s)))"

text \<open>
  \<^verbatim>\<open>Close\<close> (lines 81 to 102) returns the error of the stream it closed as it got
  it. \<open>Close_switch\<close> is the \<^verbatim>\<open>switch\<close> with the assignment \<^verbatim>\<open>c.conn = nil\<close>
  that follows its first three cases; the deferred \<^verbatim>\<open>Unlock\<close> runs on every way
  out.
\<close>

definition Close_switch :: "client \<Rightarrow> store \<Rightarrow> io_err option \<times> client \<times> store" where
  "Close_switch c h =
     (if conn c \<noteq> None \<and> inp c \<noteq> None then
        (case close_at h (the (inp c)) of
           (inErr, h1) \<Rightarrow>
             (case close_at h1 (the (conn c)) of
                (e, h2) \<Rightarrow> (if e = None then inErr else e, c\<lparr>conn := None\<rparr>, h2)))
      else if conn c \<noteq> None then
        (case close_at h (the (conn c)) of (e, h1) \<Rightarrow> (e, c\<lparr>conn := None\<rparr>, h1))
      else if inp c \<noteq> None then
        (case close_at h (the (inp c)) of (e, h1) \<Rightarrow> (e, c\<lparr>conn := None\<rparr>, h1))
      else (None, c, h))"

definition Close :: "client \<Rightarrow> store \<Rightarrow> (io_err option \<times> client \<times> store) option" where
  "Close c h =
     (case Lock (mu c) of
        None \<Rightarrow> None
      | Some m1 \<Rightarrow>
          (case Close_switch (c\<lparr>mu := m1\<rparr>) h of
             (e, c', h') \<Rightarrow>
               (case Unlock (mu c') of
                  None \<Rightarrow> None
                | Some m2 \<Rightarrow> Some (e, c'\<lparr>mu := m2\<rparr>, h'))))"

text \<open>
  \<^verbatim>\<open>Send\<close> (lines 105 to 127) and \<^verbatim>\<open>Receive\<close> (lines 130 to 148). The return
  for a \<^verbatim>\<open>nil\<close> parameter stands between \<^verbatim>\<open>RLock\<close> and \<^verbatim>\<open>RUnlock\<close>, so
  the client it leaves still holds the read lock.
\<close>

definition Send :: "client \<Rightarrow> store \<Rightarrow> (error option \<times> client \<times> store) option" where
  "Send c h =
     (case RLock (mu c) of
        None \<Rightarrow> None
      | Some m1 \<Rightarrow>
          if conn c = None \<or> inp c = None
          then Some (Some (NilParameter ''input_stream'' (conn c = None) (inp c = None)),
                     c\<lparr>mu := m1\<rparr>, h)
          else
            (case RUnlock m1 of
               None \<Rightarrow> None
             | Some m2 \<Rightarrow>
                 (case readOut (h (the (inp c))) of
                    (r, s) \<Rightarrow>
                      (let c' = c\<lparr>mu := m2\<rparr>; h1 = h(the (inp c) := s) in
                       case r of
                         Inl e \<Rightarrow> Some (Some e, c', h1)
                       | Inr data \<Rightarrow>
                           if length data = 0 then Some (Some ErrEOT, c', h1)
                           else
                             (case writeOut (h1 (the (conn c))) data of
                                (e, w) \<Rightarrow> Some (e, c', h1(the (conn c) := w)))))))"

definition Receive :: "client \<Rightarrow> store \<Rightarrow> (error option \<times> client \<times> store) option" where
  "Receive c h =
     (case RLock (mu c) of
        None \<Rightarrow> None
      | Some m1 \<Rightarrow>
          if conn c = None \<or> out c = None
          then Some (Some (NilParameter ''output_stream'' (conn c = None) (out c = None)),
                     c\<lparr>mu := m1\<rparr>, h)
          else
            (case RUnlock m1 of
               None \<Rightarrow> None
             | Some m2 \<Rightarrow>
                 (case readOut (h (the (conn c))) of
                    (r, s) \<Rightarrow>
                      (let c' = c\<lparr>mu := m2\<rparr>; h1 = h(the (conn c) := s) in
                       case r of
                         Inl e \<Rightarrow> Some (Some e, c', h1)
                       | Inr data \<Rightarrow>
                           (case writeOut (h1 (the (out c))) data of
                              (e, w) \<Rightarrow> Some (e, c', h1(the (out c) := w)))))))"

text \<open>A stream that has only a script of reads: nothing written, nothing closed.\<close>

definition source_of :: "(byte list \<times> io_err option) list \<Rightarrow> stream" where
  "source_of evs =
     \<lparr>rd_events = evs, rd_calls = 0, wr_data = [], wr_fail = None, wr_calls = 0,
      cl_results = [], cl_calls = 0\<rparr>"

text \<open>
  \<^verbatim>\<open>net.DialTimeout\<close> of the standard library, over the addresses where something
  listens: the dialer sets a deadline only for a timeout other than zero, so zero means
  no timeout, and a negative timeout is a deadline that has passed already.
\<close>

definition DialTimeout ::
  "(string \<rightharpoonup> handle) \<Rightarrow> string \<Rightarrow> string \<Rightarrow> int \<Rightarrow> io_err + handle" where
  "DialTimeout listening network a t =
     (if t < 0 then Inl (OtherErr 0)
      else case listening a of None \<Rightarrow> Inl (OtherErr 1) | Some cn \<Rightarrow> Inr cn)"

text \<open>
  Streams, stores and clients of the examples: the input stream has handle 0, the
  connection handle 1, and \<open>connected\<close> is a client as a successful
  \<^verbatim>\<open>Connect\<close> leaves it.
\<close>

definition close_fails :: "io_err option list \<Rightarrow> stream" where
  "close_fails rs = (source_of [])\<lparr>cl_results := rs\<rparr>"

definition store_of :: "stream \<Rightarrow> stream \<Rightarrow> store" where
  "store_of i cn = (\<lambda>_. source_of [])(0 := i, 1 := cn)"

definition connected :: "handle option \<Rightarrow> handle option \<Rightarrow> client" where
  "connected i ou = (NewClient ''localhost:4242'' 10000000000 i ou)\<lparr>conn := Some 1\<rparr>"

text \<open>
  A stream at its clean end: the next read brings no bytes and \<^verbatim>\<open>io.EOF\<close>.
\<close>

definition clean_end :: "stream \<Rightarrow> bool" where
  "clean_end s = (case rd_events s of [] \<Rightarrow> True | (bs, e) # _ \<Rightarrow> bs = [] \<and> e = Some EOF)"

section \<open>Facts about the model\<close>

lemma Close_io_calls: "cl_calls (snd (Close_io s)) = Suc (cl_calls s)"
  by (simp add: Close_io_def split: list.splits)

lemma store_of_simps:
  "store_of a b 0 = a" "store_of a b (Suc 0) = b"
  "(store_of a b)(0 := a') = store_of a' b" "(store_of a b)(Suc 0 := b') = store_of a b'"
  by (auto simp: store_of_def fun_eq_iff)

lemma Read_io_clean_end:
  "clean_end s \<Longrightarrow> fst (Read_io s k) = ([], Some EOF)"
  by (auto simp: clean_end_def Read_io_def split: list.splits)

lemma Read_io_writes:
  "wr_data (snd (Read_io s k)) = wr_data s" "wr_calls (snd (Read_io s k)) = wr_calls s"
  "wr_fail (snd (Read_io s k)) = wr_fail s"
  by (auto simp: Read_io_def split: list.splits)

lemma Connect_connected:
  "Connect (\<lambda>n a t. Inr 1) (NewClient ''localhost:4242'' 10000000000 i ou) =
     Some (None, connected i ou)"
  by (simp add: Connect_def connected_def NewClient_def RLock_def RUnlock_def Lock_def
      Unlock_def)

text \<open>
  The write lock is taken and released inside \<^verbatim>\<open>Connect\<close> and \<^verbatim>\<open>Close\<close>: no
  call that returns leaves it held.
\<close>

lemma writer_free_after:
  "\<not> writer (mu (NewClient a t i ou))"
  "Connect dial c = Some (r, c') \<Longrightarrow> \<not> writer (mu c')"
  "Close c h = Some (e, c', h') \<Longrightarrow> \<not> writer (mu c')"
  "Send c h = Some (r, c', h') \<Longrightarrow> \<not> writer (mu c')"
  "Receive c h = Some (r, c', h') \<Longrightarrow> \<not> writer (mu c')"
  by (auto simp: NewClient_def Connect_def Close_def Send_def Receive_def Let_def
      RLock_def RUnlock_def Lock_def Unlock_def
      split: option.splits sum.splits if_splits prod.splits)

text \<open>
  What a \<^verbatim>\<open>Close\<close> after a \<^verbatim>\<open>Close\<close> does: the connection handle is gone,
  the input handle is not. Without an input stream the second call does nothing and
  succeeds; with one it closes that stream again and returns what the stream says.
\<close>

lemma Close_again:
  assumes "mu c = \<lparr>readers = 0, writer = False\<rparr>" and "Close c h = Some (e, c', h')"
  shows "conn c' = None"
    and "inp c' = inp c"
    and "mu c' = mu c"
    and "inp c = None \<Longrightarrow> Close c' h' = Some (None, c', h')"
    and "inp c = Some i \<Longrightarrow>
           Close c' h' = Some (fst (Close_io (h' i)), c', h'(i := snd (Close_io (h' i))))"
proof -
  have m: "Lock (mu c) = Some \<lparr>readers = 0, writer = True\<rparr>"
    using assms(1) by (simp add: Lock_def)
  have u: "Unlock \<lparr>readers = 0, writer = True\<rparr> = Some (mu c)"
    using assms(1) by (simp add: Unlock_def)
  from assms(2) m u show c: "conn c' = None" and i: "inp c' = inp c" and k: "mu c' = mu c"
    by (auto simp: Close_def Close_switch_def split_beta split: if_splits)
  from k m u have m': "Lock (mu c') = Some \<lparr>readers = 0, writer = True\<rparr>"
    and u': "Unlock \<lparr>readers = 0, writer = True\<rparr> = Some (mu c')"
    by simp_all
  have r: "c'\<lparr>mu := \<lparr>readers = 0, writer = True\<rparr>, mu := mu c'\<rparr> = c'"
    by simp
  show "Close c' h' = Some (None, c', h')" if "inp c = None"
    using that c i m' u' by (simp add: Close_def Close_switch_def)
  show "Close c' h' = Some (fst (Close_io (h' i)), c', h'(i := snd (Close_io (h' i))))"
    if "inp c = Some i"
    using that c i m' u' by (simp add: Close_def Close_switch_def close_at_def split_beta)
qed

text \<open>
  What the calls do to the connection handle when they return, and what
  \<^verbatim>\<open>Connect\<close> and \<^verbatim>\<open>Close\<close> do on a client whose mutex nobody holds. Both
  need the write lock: on a client that still holds a read lock they do not return.
\<close>

lemma conn_after_call:
  "conn (NewClient a t i ou) = None \<and>
   (\<forall>e c'. Connect dial c = Some (Some e, c') \<longrightarrow>
      c' = c \<and> (\<exists>x. dial ''tcp'' (address c) (timeout c) = Inl x \<and> e = ConnectionFailed x)) \<and>
   (\<forall>c'. Connect dial c = Some (None, c') \<longrightarrow>
      (\<exists>cn. dial ''tcp'' (address c) (timeout c) = Inr cn \<and> c' = c\<lparr>conn := Some cn\<rparr>)) \<and>
   (\<forall>e c' h'. Close c h = Some (e, c', h') \<longrightarrow> conn c' = None) \<and>
   (\<forall>e c' h'. Send c h = Some (e, c', h') \<longrightarrow> conn c' = conn c) \<and>
   (\<forall>e c' h'. Receive c h = Some (e, c', h') \<longrightarrow> conn c' = conn c)"
proof (intro conjI allI impI)
  show "conn (NewClient a t i ou) = None" by (simp add: NewClient_def)
next
  fix e c' assume "Connect dial c = Some (Some e, c')"
  then show "c' = c"
    by (auto simp: Connect_def RLock_def RUnlock_def Lock_def Unlock_def Let_def
        split: option.splits sum.splits if_splits)
next
  fix e c' assume "Connect dial c = Some (Some e, c')"
  then show "\<exists>x. dial ''tcp'' (address c) (timeout c) = Inl x \<and> e = ConnectionFailed x"
    by (auto simp: Connect_def RLock_def RUnlock_def Lock_def Unlock_def Let_def
        split: option.splits sum.splits if_splits)
next
  fix c' assume "Connect dial c = Some (None, c')"
  then show "\<exists>cn. dial ''tcp'' (address c) (timeout c) = Inr cn \<and> c' = c\<lparr>conn := Some cn\<rparr>"
    by (auto simp: Connect_def RLock_def RUnlock_def Lock_def Unlock_def Let_def
        split: option.splits sum.splits if_splits)
next
  fix e c' h' assume "Close c h = Some (e, c', h')"
  then show "conn c' = None"
    by (auto simp: Close_def Close_switch_def split: option.splits prod.splits if_splits)
next
  fix e c' h' assume "Send c h = Some (e, c', h')"
  then show "conn c' = conn c"
    by (auto simp: Send_def Let_def split: option.splits prod.splits if_splits sum.splits)
next
  fix e c' h' assume "Receive c h = Some (e, c', h')"
  then show "conn c' = conn c"
    by (auto simp: Receive_def Let_def split: option.splits prod.splits if_splits sum.splits)
qed

lemma Connect_free_mutex:
  assumes "mu c = \<lparr>readers = 0, writer = False\<rparr>"
  shows "Connect dial c =
           (case dial ''tcp'' (address c) (timeout c) of
              Inl x \<Rightarrow> Some (Some (ConnectionFailed x), c)
            | Inr cn \<Rightarrow> Some (None, c\<lparr>conn := Some cn\<rparr>))"
  using assms
  by (simp add: Connect_def RLock_def RUnlock_def Lock_def Unlock_def split: sum.splits)

lemma write_lock_waits:
  "readers (mu c) > 0 \<Longrightarrow> Close c h = None"
  "readers (mu c) > 0 \<Longrightarrow> dial ''tcp'' (address c) (timeout c) = Inr cn \<Longrightarrow>
     Connect dial c = None"
  by (auto simp: Close_def Connect_def RLock_def RUnlock_def Lock_def split: option.splits)

lemma Close_free_mutex:
  assumes "mu c = \<lparr>readers = 0, writer = False\<rparr>"
  shows "\<exists>e c' h'. Close c h = Some (e, c', h') \<and> c' = c\<lparr>conn := None\<rparr> \<and>
     (\<forall>cn. conn c = Some cn \<and> inp c \<noteq> Some cn \<longrightarrow> cl_calls (h' cn) = Suc (cl_calls (h cn))) \<and>
     (\<forall>i. inp c = Some i \<and> conn c \<noteq> Some i \<longrightarrow> cl_calls (h' i) = Suc (cl_calls (h i))) \<and>
     (\<forall>cn i x. conn c = Some cn \<and> inp c = Some i \<and> cn \<noteq> i \<and> fst (Close_io (h cn)) = Some x
        \<longrightarrow> e = Some x) \<and>
     (\<forall>cn i. conn c = Some cn \<and> inp c = Some i \<and> cn \<noteq> i \<and> fst (Close_io (h cn)) = None
        \<longrightarrow> e = fst (Close_io (h i))) \<and>
     (conn c = None \<and> inp c = None \<longrightarrow> e = None \<and> c' = c \<and> h' = h) \<and>
     (\<forall>r. Some r \<noteq> conn c \<and> Some r \<noteq> inp c \<longrightarrow> h' r = h r)"
proof -
  have m: "Lock (mu c) = Some \<lparr>readers = 0, writer = True\<rparr>"
    using assms by (simp add: Lock_def)
  have u: "Unlock \<lparr>readers = 0, writer = True\<rparr> = Some (mu c)"
    using assms by (simp add: Unlock_def)
  show ?thesis
  proof (cases "conn c")
    case None
    note nc = this
    show ?thesis
    proof (cases "inp c")
      case None
      with nc m u show ?thesis
        by (simp add: Close_def Close_switch_def)
    next
      case (Some i)
      with nc m u show ?thesis
        by (auto simp: Close_def Close_switch_def close_at_def Close_io_calls split_beta)
    qed
  next
    case (Some cn)
    note sc = this
    show ?thesis
    proof (cases "inp c")
      case None
      with sc m u show ?thesis
        by (auto simp: Close_def Close_switch_def close_at_def Close_io_calls split_beta)
    next
      case (Some i)
      with sc m u show ?thesis
        by (auto simp: Close_def Close_switch_def close_at_def Close_io_calls split_beta)
    qed
  qed
qed

section \<open>One step of each loop\<close>

lemma fill_step:
  "fill b =
     (case Read_io (rd b) (defaultBufSize - length (buf b)) of
        ((p, e), s) \<Rightarrow>
          (let b' = b\<lparr>buf := buf b @ p, rd := s\<rparr> in
           if e \<noteq> None then b'\<lparr>err := e\<rparr>
           else if length p > 0 then b'
           else fill_loop 99 b'))"
proof -
  have m: "maxConsecutiveEmptyReads = Suc 99" by (simp add: maxConsecutiveEmptyReads_def)
  show ?thesis unfolding fill_def m by (rule fill_loop.simps(2))
qed

lemma ReadSlice_loop_found:
  "IndexByte (drop s (buf b)) delim = Some i \<Longrightarrow>
     ReadSlice_loop delim s b =
       ((take (i + s + 1) (buf b), None), b\<lparr>buf := drop (i + s + 1) (buf b)\<rparr>)"
  by (subst ReadSlice_loop.simps) simp

lemma ReadSlice_loop_pending:
  "IndexByte (drop s (buf b)) delim = None \<Longrightarrow> err b = Some x \<Longrightarrow>
     ReadSlice_loop delim s b = ((buf b, Some x), b\<lparr>buf := [], err := None\<rparr>)"
  by (subst ReadSlice_loop.simps) simp

lemma ReadSlice_loop_fill:
  "IndexByte (drop s (buf b)) delim = None \<Longrightarrow> err b = None \<Longrightarrow>
   length (buf b) < defaultBufSize \<Longrightarrow>
     ReadSlice_loop delim s b = ReadSlice_loop delim (length (buf b)) (fill b)"
  by (subst ReadSlice_loop.simps) (simp add: Buffered_def)

lemma ReadBytes_found:
  "ReadSlice delim b = ((frag, None), b') \<Longrightarrow> ReadBytes delim b = ((frag, None), b')"
  by (simp add: ReadBytes_def collectFragments_def collectFragments_loop.simps)

lemma ReadBytes_failed:
  "ReadSlice delim b = ((frag, Some x), b') \<Longrightarrow> x \<noteq> ErrBufferFull \<Longrightarrow>
     ReadBytes delim b = ((frag, Some x), b')"
  by (simp add: ReadBytes_def collectFragments_def collectFragments_loop.simps)

lemma readOut_loop_EOF:
  assumes "ReadBytes newline b = ((line, Some EOF), b')"
  shows "readOut_loop res b = (Inl ErrEOT, b')"
proof -
  from ReadBytes_props(4) [OF assms] have "buf b' = []" by simp
  with assms show ?thesis
    by (subst readOut_loop.simps) (simp add: Buffered_def)
qed

lemma readOut_loop_done:
  "ReadBytes newline b = ((line, None), b') \<Longrightarrow> buf b' = [] \<Longrightarrow>
     readOut_loop res b = (Inr (res @ line), b')"
  by (subst readOut_loop.simps) (simp add: Buffered_def)

lemma readOut_loop_more:
  "ReadBytes newline b = ((line, None), b') \<Longrightarrow> buf b' \<noteq> [] \<Longrightarrow>
     readOut_loop res b = readOut_loop (res @ line) b'"
  by (subst readOut_loop.simps) (simp add: Buffered_def)

lemma readOut_loop_refill:
  assumes "buf b = []" and "err b = None"
  shows "readOut_loop res b = readOut_loop res (fill b)"
proof -
  have "ReadSlice newline b = ReadSlice_loop newline (length (buf b)) (fill b)"
    unfolding ReadSlice_def using assms
    by (intro ReadSlice_loop_fill) (simp_all add: defaultBufSize_def)
  moreover have "ReadSlice newline (fill b) = ReadSlice_loop newline 0 (fill b)"
    by (simp add: ReadSlice_def)
  ultimately have "ReadSlice newline b = ReadSlice newline (fill b)"
    using assms by simp
  then have "ReadBytes newline b = ReadBytes newline (fill b)"
    by (simp add: ReadBytes_def collectFragments_def collectFragments_loop.simps [of _ "[]" 0])
  then show ?thesis
    by (subst readOut_loop.simps, subst (2) readOut_loop.simps) simp
qed

text \<open>
  A buffer that holds whole lines only is handed out in one call, without a further
  read of the source.
\<close>

lemma readOut_loop_lines:
  "buf b = ls \<Longrightarrow> ls \<noteq> [] \<Longrightarrow> last ls = newline \<Longrightarrow>
     readOut_loop res b = (Inr (res @ ls), b\<lparr>buf := []\<rparr>)"
proof (induction "length ls" arbitrary: ls res b rule: less_induct)
  case less
  from less.prems have "newline \<in> set ls" by (metis last_in_set)
  then obtain i where I: "IndexByte ls newline = Some i"
    by (cases "IndexByte ls newline") (auto simp: IndexByte_None)
  from IndexByte_Some [OF I] have i: "i < length ls" by simp
  from I less.prems(1)
  have RS: "ReadSlice newline b = ((take (Suc i) ls, None), b\<lparr>buf := drop (Suc i) ls\<rparr>)"
    by (simp add: ReadSlice_def ReadSlice_loop_found)
  from ReadBytes_found [OF RS]
  have RB: "ReadBytes newline b = ((take (Suc i) ls, None), b\<lparr>buf := drop (Suc i) ls\<rparr>)" .
  show ?case
  proof (cases "drop (Suc i) ls = []")
    case True
    then have "take (Suc i) ls = ls" by simp
    with readOut_loop_done [OF RB, of res] True show ?thesis by simp
  next
    case False
    then have lt: "Suc i < length ls" by simp
    then have l: "last (drop (Suc i) ls) = newline"
      using less.prems(3) by (simp add: last_drop)
    from lt have len: "length (drop (Suc i) ls) < length ls" by simp
    have "readOut_loop res b = readOut_loop (res @ take (Suc i) ls) (b\<lparr>buf := drop (Suc i) ls\<rparr>)"
      using readOut_loop_more [OF RB, of res] False by simp
    also have "\<dots> = (Inr ((res @ take (Suc i) ls) @ drop (Suc i) ls),
                     b\<lparr>buf := drop (Suc i) ls\<rparr>\<lparr>buf := []\<rparr>)"
      using less.hyps [OF len _ False l] by simp
    finally show ?thesis by simp
  qed
qed

lemma readOut_one_read:
  assumes "Read_io s defaultBufSize = ((p, e), s')" and "p \<noteq> []" and "last p = newline"
  shows "readOut s = (Inr p, s')"
proof -
  from assms(1,2) have f: "fill (NewReader s) = \<lparr>buf = p, err = e, rd = s'\<rparr>"
    by (cases e) (simp_all add: fill_step NewReader_def)
  have "readOut_loop [] (NewReader s) = readOut_loop [] (fill (NewReader s))"
    by (rule readOut_loop_refill) (simp_all add: NewReader_def)
  also have "\<dots> = (Inr ([] @ p), \<lparr>buf = p, err = e, rd = s'\<rparr>\<lparr>buf := []\<rparr>)"
    unfolding f using assms(2,3) by (intro readOut_loop_lines) simp_all
  finally show ?thesis by (simp add: readOut_def)
qed

lemma readOut_at_end:
  assumes "Read_io s defaultBufSize = (([], Some EOF), s')"
  shows "readOut s = (Inl ErrEOT, s')"
proof -
  let ?b = "\<lparr>buf = [], err = Some EOF, rd = s'\<rparr>"
  from assms have f: "fill (NewReader s) = ?b"
    by (simp add: fill_step NewReader_def)
  have "ReadSlice newline ?b = (([], Some EOF), ?b\<lparr>buf := [], err := None\<rparr>)"
    by (simp add: ReadSlice_def ReadSlice_loop_pending)
  from ReadBytes_failed [OF this]
  have "ReadBytes newline ?b = (([], Some EOF), ?b\<lparr>buf := [], err := None\<rparr>)" by simp
  from readOut_loop_EOF [OF this]
  have "readOut_loop [] ?b = (Inl ErrEOT, ?b\<lparr>buf := [], err := None\<rparr>)" .
  moreover have "readOut_loop [] (NewReader s) = readOut_loop [] (fill (NewReader s))"
    by (rule readOut_loop_refill) (simp_all add: NewReader_def)
  ultimately show ?thesis using f by (simp add: readOut_def)
qed

lemma readOut_loop_nonempty:
  "readOut_loop res b = (Inr data, b') \<Longrightarrow> data \<noteq> []"
proof (induction res b rule: readOut_loop.induct)
  case (1 res b)
  obtain line e b1 where RB: "ReadBytes newline b = ((line, e), b1)"
    by (metis surj_pair)
  show ?case
  proof (cases e)
    case None
    from ReadBytes_props(1) [OF RB None] have ne: "line \<noteq> []" .
    show ?thesis
    proof (cases "Buffered b1 = 0")
      case True
      with RB None "1.prems" have "data = res @ line"
        by (subst (asm) readOut_loop.simps) simp
      with ne show ?thesis by simp
    next
      case False
      with RB None "1.prems" have "readOut_loop (res @ line) b1 = (Inr data, b')"
        by (subst (asm) readOut_loop.simps) simp
      from "1.IH"(1) [OF RB [symmetric] refl refl None False this] show ?thesis .
    qed
  next
    case (Some x)
    from ReadBytes_props(4) [OF RB] Some have "Buffered b1 = 0" by (simp add: Buffered_def)
    with RB Some "1.prems" show ?thesis
      by (subst (asm) readOut_loop.simps) (simp split: if_splits)
  qed
qed

lemma readOut_nonempty: "readOut s = (Inr data, s') \<Longrightarrow> data \<noteq> []"
  by (auto simp: readOut_def split: prod.splits dest: readOut_loop_nonempty)

section \<open>The claims of the specification\<close>

text \<open>
  C1, at an input the code can get: a connected client whose input stream, like a
  file, refuses a second close. The first \<^verbatim>\<open>Close\<close> closes both streams and
  succeeds; the second closes the input stream again and returns its error.
\<close>

theorem second_Close_closes_input_again:
  "(case Close (connected (Some 0) None)
           (store_of (close_fails [None, Some (OtherErr 9)]) (source_of [])) of
      None \<Rightarrow> False
    | Some (e1, c1, h1) \<Rightarrow>
        e1 = None \<and> cl_calls (h1 0) = 1 \<and> cl_calls (h1 1) = 1 \<and>
        (case Close c1 h1 of
           None \<Rightarrow> False
         | Some (e2, c2, h2) \<Rightarrow>
             e2 = Some (OtherErr 9) \<and> cl_calls (h2 0) = 2 \<and> cl_calls (h2 1) = 1))"
  by (simp add: connected_def NewClient_def store_of_def close_fails_def source_of_def
      Close_def Close_switch_def close_at_def Close_io_def Lock_def Unlock_def)

text \<open>
  C2, at an input the code can get: three bytes with no terminator, then the end of
  the stream. \<^verbatim>\<open>ReadBytes\<close> returns the three bytes together with \<^verbatim>\<open>io.EOF\<close>;
  the buffer is empty, and \<^verbatim>\<open>readOut\<close> returns \<^verbatim>\<open>ErrEOT\<close> and no data, though
  its accumulator holds the three bytes. \<^verbatim>\<open>Send\<close> on that input writes nothing.
\<close>

theorem readOut_drops_unterminated:
  "readOut (source_of [(''abc'', None), ([], Some EOF)]) =
     (Inl ErrEOT, (source_of [])\<lparr>rd_calls := 2\<rparr>) \<and>
   Send (connected (Some 0) None)
        (store_of (source_of [(''abc'', None), ([], Some EOF)]) (source_of [])) =
     Some (Some ErrEOT, connected (Some 0) None,
           store_of ((source_of [])\<lparr>rd_calls := 2\<rparr>) (source_of []))"
proof -
  let ?s = "source_of [(''abc'', None), ([], Some EOF)]"
  let ?s1 = "(source_of [([], Some EOF)])\<lparr>rd_calls := 1\<rparr>"
  let ?s2 = "(source_of [])\<lparr>rd_calls := 2\<rparr>"
  let ?b1 = "\<lparr>buf = ''abc'', err = None, rd = ?s1\<rparr>"
  let ?b2 = "\<lparr>buf = ''abc'', err = Some EOF, rd = ?s2\<rparr>"
  have f1: "fill (NewReader ?s) = ?b1"
    by (simp add: fill_step NewReader_def Read_io_def source_of_def defaultBufSize_def)
  have f2: "fill ?b1 = ?b2"
    by (simp add: fill_step Read_io_def source_of_def defaultBufSize_def)
  have n: "IndexByte ''abc'' newline = None"
    by (simp add: newline_def)
  have "ReadSlice newline ?b1 = ReadSlice_loop newline (length (buf ?b1)) (fill ?b1)"
    unfolding ReadSlice_def using n
    by (intro ReadSlice_loop_fill) (simp_all add: defaultBufSize_def)
  also have "\<dots> = ((''abc'', Some EOF), ?b2\<lparr>buf := [], err := None\<rparr>)"
    unfolding f2 by (simp add: ReadSlice_loop_pending)
  finally have "ReadBytes newline ?b1 = ((''abc'', Some EOF), ?b2\<lparr>buf := [], err := None\<rparr>)"
    by (intro ReadBytes_failed) simp_all
  from readOut_loop_EOF [OF this]
  have "readOut_loop [] ?b1 = (Inl ErrEOT, ?b2\<lparr>buf := [], err := None\<rparr>)" .
  moreover have "readOut_loop [] (NewReader ?s) = readOut_loop [] (fill (NewReader ?s))"
    by (rule readOut_loop_refill) (simp_all add: NewReader_def)
  ultimately have r: "readOut ?s = (Inl ErrEOT, ?s2)"
    using f1 by (simp add: readOut_def)
  have "Send (connected (Some 0) None) (store_of ?s (source_of [])) =
     Some (Some ErrEOT, connected (Some 0) None, store_of ?s2 (source_of []))"
    by (simp add: Send_def connected_def NewClient_def store_of_simps r RLock_def RUnlock_def)
  with r show ?thesis by simp
qed

text \<open>
  C3. With the connection and the input stream present, an input stream that is at its
  clean end makes \<^verbatim>\<open>Send\<close> return \<^verbatim>\<open>ErrEOT\<close> itself; one read was made of
  the input stream and nothing else was done, so the connection got no bytes and no
  write. The test for the sentinel is true of \<^verbatim>\<open>ErrEOT\<close> only: it is false of
  the nil-parameter errors, of the connection-closed errors and of the wrapped read,
  write and dial errors, and \<^verbatim>\<open>ErrEOT\<close> is no connection-closed error.
\<close>

theorem Send_end_of_input:
  assumes "\<not> writer (mu c)" and "conn c = Some cn" and "inp c = Some i"
    and "clean_end (h i)"
  shows "Send c h = Some (Some ErrEOT, c, h(i := snd (Read_io (h i) defaultBufSize))) \<and>
         wr_data ((h(i := snd (Read_io (h i) defaultBufSize))) cn) = wr_data (h cn) \<and>
         wr_calls ((h(i := snd (Read_io (h i) defaultBufSize))) cn) = wr_calls (h cn) \<and>
         is_ErrEOT ErrEOT \<and> \<not> is_ErrConnClosed ErrEOT \<and>
         \<not> is_ErrEOT (NilParameter n x y) \<and> \<not> is_ErrEOT (ConnClosed z) \<and>
         \<not> is_ErrEOT (ReadingFailed z) \<and> \<not> is_ErrEOT (WriteFailed z) \<and>
         \<not> is_ErrEOT (ConnectionFailed z)"
proof -
  from Read_io_clean_end [OF assms(4), of defaultBufSize]
  have "Read_io (h i) defaultBufSize = (([], Some EOF), snd (Read_io (h i) defaultBufSize))"
    by (simp add: prod_eq_iff)
  from readOut_at_end [OF this]
  have r: "readOut (h i) = (Inl ErrEOT, snd (Read_io (h i) defaultBufSize))" .
  from assms(1) have l: "RLock (mu c) = Some ((mu c)\<lparr>readers := Suc (readers (mu c))\<rparr>)"
    by (simp add: RLock_def)
  have u: "RUnlock ((mu c)\<lparr>readers := Suc (readers (mu c))\<rparr>) = Some (mu c)"
    by (simp add: RUnlock_def)
  have "Send c h = Some (Some ErrEOT, c, h(i := snd (Read_io (h i) defaultBufSize)))"
    using assms(2,3) by (simp add: Send_def l u r)
  then show ?thesis by (simp add: Read_io_writes)
qed

theorem Send_end_of_input_witness:
  "Send (connected (Some 0) None) (store_of (source_of [([], Some EOF)]) (source_of [])) =
     Some (Some ErrEOT, connected (Some 0) None,
           store_of ((source_of [])\<lparr>rd_calls := 1\<rparr>) (source_of [])) \<and>
   wr_data (source_of []) = [] \<and> wr_calls (source_of []) = 0"
  using Send_end_of_input [of "connected (Some 0) None" 1 0
      "store_of (source_of [([], Some EOF)]) (source_of [])"]
  by (simp add: connected_def NewClient_def store_of_simps clean_end_def Read_io_def
      source_of_def)

text \<open>
  C4. A \<^verbatim>\<open>Send\<close> without a connection or without an input stream, and a
  \<^verbatim>\<open>Receive\<close> without a connection or without an output stream, return the
  error that says which of the two is absent, and leave every stream as it was: no
  read, write or close was made. (The read lock taken on the way in is still held.)
\<close>

theorem absent_parameter_no_io:
  assumes "\<not> writer (mu c)"
  shows "(conn c = None \<or> inp c = None \<longrightarrow>
           Send c h =
             Some (Some (NilParameter ''input_stream'' (conn c = None) (inp c = None)),
                   c\<lparr>mu := (mu c)\<lparr>readers := Suc (readers (mu c))\<rparr>\<rparr>, h)) \<and>
         (conn c = None \<or> out c = None \<longrightarrow>
           Receive c h =
             Some (Some (NilParameter ''output_stream'' (conn c = None) (out c = None)),
                   c\<lparr>mu := (mu c)\<lparr>readers := Suc (readers (mu c))\<rparr>\<rparr>, h))"
  using assms by (auto simp: Send_def Receive_def RLock_def)

theorem absent_parameter_no_io_witness:
  "Send (NewClient ''localhost:0'' 1000000 (Some 0) None) (\<lambda>_. source_of []) =
     Some (Some (NilParameter ''input_stream'' True False),
           (NewClient ''localhost:0'' 1000000 (Some 0) None)\<lparr>mu := \<lparr>readers = 1, writer = False\<rparr>\<rparr>,
           (\<lambda>_. source_of [])) \<and>
   Receive (NewClient ''localhost:0'' 1000000 (Some 0) None) (\<lambda>_. source_of []) =
     Some (Some (NilParameter ''output_stream'' True True),
           (NewClient ''localhost:0'' 1000000 (Some 0) None)\<lparr>mu := \<lparr>readers = 1, writer = False\<rparr>\<rparr>,
           (\<lambda>_. source_of []))"
  using absent_parameter_no_io [of "NewClient ''localhost:0'' 1000000 (Some 0) None" "\<lambda>_. source_of []"]
  by (simp add: NewClient_def)

text \<open>
  C5, at inputs the code can get. A client with an output stream and no input stream
  connects, and the handle is stored. \<^verbatim>\<open>Send\<close> returns the nil-parameter error
  from between \<^verbatim>\<open>RLock\<close> and \<^verbatim>\<open>RUnlock\<close>; the \<^verbatim>\<open>Close\<close> that follows
  never returns, and the handle stays stored. On a client that was never connected,
  after the same early return of \<^verbatim>\<open>Receive\<close>, a \<^verbatim>\<open>Connect\<close> whose dial
  succeeded never returns either, and the handle is never stored.
\<close>

theorem early_return_keeps_conn:
  "(case Connect (\<lambda>n a t. Inr 1) (NewClient ''localhost:4242'' 10000000000 None (Some 2)) of
      None \<Rightarrow> False
    | Some (r0, c0) \<Rightarrow>
        r0 = None \<and> conn c0 = Some 1 \<and>
        (case Send c0 (store_of (source_of []) (source_of [])) of
           None \<Rightarrow> False
         | Some (r1, c1, h1) \<Rightarrow>
             r1 = Some (NilParameter ''input_stream'' False True) \<and>
             readers (mu c1) = 1 \<and> conn c1 = Some 1 \<and> Close c1 h1 = None)) \<and>
   (case Receive (NewClient ''localhost:4242'' 10000000000 None None)
           (store_of (source_of []) (source_of [])) of
      None \<Rightarrow> False
    | Some (r1, c1, h1) \<Rightarrow>
        r1 = Some (NilParameter ''output_stream'' True True) \<and>
        readers (mu c1) = 1 \<and> conn c1 = None \<and> Connect (\<lambda>n a t. Inr 1) c1 = None)"
  by (simp add: NewClient_def Send_def Receive_def Close_def Connect_def
      RLock_def RUnlock_def Lock_def Unlock_def)

text \<open>
  C6, at inputs the code can get. On a client with neither connection nor input
  stream, after \<^verbatim>\<open>Receive\<close> has returned the nil-parameter error with the read
  lock held, the first \<^verbatim>\<open>Close\<close> does not return success: it never returns. On
  a connected client with an input stream and no output stream, after the same
  \<^verbatim>\<open>Receive\<close>, the first \<^verbatim>\<open>Close\<close> never returns either; neither stream has
  been closed when it starts to wait, and the wait for the write lock comes before
  any close.
\<close>

theorem first_Close_after_early_return:
  "(case Receive (NewClient ''localhost:4242'' 10000000000 None None)
           (store_of (source_of []) (source_of [])) of
      None \<Rightarrow> False
    | Some (r, c1, h1) \<Rightarrow>
        r = Some (NilParameter ''output_stream'' True True) \<and>
        conn c1 = None \<and> inp c1 = None \<and> Close c1 h1 = None) \<and>
   (case Receive (connected (Some 0) None) (store_of (source_of []) (source_of [])) of
      None \<Rightarrow> False
    | Some (r, c1, h1) \<Rightarrow>
        r = Some (NilParameter ''output_stream'' False True) \<and>
        conn c1 = Some 1 \<and> inp c1 = Some 0 \<and>
        cl_calls (h1 0) = 0 \<and> cl_calls (h1 1) = 0 \<and> Close c1 h1 = None)"
  by (simp add: connected_def NewClient_def Receive_def Close_def store_of_simps source_of_def
      RLock_def RUnlock_def Lock_def Unlock_def)

text \<open>
  C7, as the code has it. When the first read of the source delivers bytes that end
  with the terminator and fit the buffer of \<^verbatim>\<open>defaultBufSize\<close> bytes, and the
  sink takes what is written to it, one \<^verbatim>\<open>Send\<close> appends exactly those bytes to
  what the connection was sent, in one write, and one \<^verbatim>\<open>Receive\<close> does the same
  from the connection to the output stream.
\<close>

theorem relay_terminated_chunk:
  assumes "\<not> writer (mu c)" and "conn c = Some cn"
    and "xs \<noteq> []" and "last xs = newline" and "length xs \<le> defaultBufSize"
  shows "(inp c = Some i \<and> rd_events (h i) = (xs, e) # rest \<and> wr_fail (h cn) = None \<longrightarrow>
           (\<exists>h'. Send c h = Some (None, c, h') \<and>
                 wr_data (h' cn) = wr_data (h cn) @ xs \<and>
                 wr_calls (h' cn) = Suc (wr_calls (h cn)))) \<and>
         (out c = Some ou \<and> rd_events (h cn) = (xs, e) # rest \<and> wr_fail (h ou) = None \<longrightarrow>
           (\<exists>h'. Receive c h = Some (None, c, h') \<and>
                 wr_data (h' ou) = wr_data (h ou) @ xs \<and>
                 wr_calls (h' ou) = Suc (wr_calls (h ou))))"
proof (intro conjI impI)
  from assms(1) have l: "RLock (mu c) = Some ((mu c)\<lparr>readers := Suc (readers (mu c))\<rparr>)"
    by (simp add: RLock_def)
  have u: "RUnlock ((mu c)\<lparr>readers := Suc (readers (mu c))\<rparr>) = Some (mu c)"
    by (simp add: RUnlock_def)
  have rd: "readOut s = (Inr xs, snd (Read_io s defaultBufSize))"
    if "rd_events s = (xs, e) # rest" for s
  proof -
    from that assms(5)
    have "Read_io s defaultBufSize = ((xs, e), snd (Read_io s defaultBufSize))"
      by (simp add: Read_io_def)
    from readOut_one_read [OF this assms(3,4)] show ?thesis .
  qed
  {
    assume a: "inp c = Some i \<and> rd_events (h i) = (xs, e) # rest \<and> wr_fail (h cn) = None"
    let ?s = "snd (Read_io (h i) defaultBufSize)"
    let ?h1 = "h(i := ?s)"
    from a have r: "readOut (h i) = (Inr xs, ?s)" by (simp add: rd)
    from a have wf: "wr_fail (?h1 cn) = None" by (auto simp: Read_io_writes)
    then have w: "writeOut (?h1 cn) xs =
        (None, (?h1 cn)\<lparr>wr_data := wr_data (?h1 cn) @ xs, wr_calls := Suc (wr_calls (?h1 cn))\<rparr>)"
      by (simp add: writeOut_def Write_io_def)
    have "Send c h = Some (None, c, ?h1(cn := (?h1 cn)\<lparr>wr_data := wr_data (?h1 cn) @ xs,
              wr_calls := Suc (wr_calls (?h1 cn))\<rparr>))"
      using a assms(2,3) by (simp add: Send_def Let_def l u r w del: fun_upd_apply)
    moreover have "wr_data (?h1 cn) = wr_data (h cn)" "wr_calls (?h1 cn) = wr_calls (h cn)"
      by (auto simp: Read_io_writes)
    ultimately show "\<exists>h'. Send c h = Some (None, c, h') \<and>
                 wr_data (h' cn) = wr_data (h cn) @ xs \<and>
                 wr_calls (h' cn) = Suc (wr_calls (h cn))"
      by simp
  }
  {
    assume a: "out c = Some ou \<and> rd_events (h cn) = (xs, e) # rest \<and> wr_fail (h ou) = None"
    let ?s = "snd (Read_io (h cn) defaultBufSize)"
    let ?h1 = "h(cn := ?s)"
    from a have r: "readOut (h cn) = (Inr xs, ?s)" by (simp add: rd)
    from a have wf: "wr_fail (?h1 ou) = None" by (auto simp: Read_io_writes)
    then have w: "writeOut (?h1 ou) xs =
        (None, (?h1 ou)\<lparr>wr_data := wr_data (?h1 ou) @ xs, wr_calls := Suc (wr_calls (?h1 ou))\<rparr>)"
      by (simp add: writeOut_def Write_io_def)
    have "Receive c h = Some (None, c, ?h1(ou := (?h1 ou)\<lparr>wr_data := wr_data (?h1 ou) @ xs,
              wr_calls := Suc (wr_calls (?h1 ou))\<rparr>))"
      using a assms(2) by (simp add: Receive_def Let_def l u r w del: fun_upd_apply)
    moreover have "wr_data (?h1 ou) = wr_data (h ou)" "wr_calls (?h1 ou) = wr_calls (h ou)"
      by (auto simp: Read_io_writes)
    ultimately show "\<exists>h'. Receive c h = Some (None, c, h') \<and>
                 wr_data (h' ou) = wr_data (h ou) @ xs \<and>
                 wr_calls (h' ou) = Suc (wr_calls (h ou))"
      by simp
  }
qed

theorem relay_terminated_chunk_witness:
  "(case Send (connected (Some 0) (Some 2))
            (store_of (source_of [(''hello'' @ [newline], None)]) (source_of [])) of
      None \<Rightarrow> False
    | Some (r, c', h') \<Rightarrow> r = None \<and> wr_data (h' 1) = ''hello'' @ [newline]) \<and>
   (case Receive (connected (Some 0) (Some 2))
            (store_of (source_of []) (source_of [(''world'' @ [newline], None)])) of
      None \<Rightarrow> False
    | Some (r, c', h') \<Rightarrow> r = None \<and> wr_data (h' 2) = ''world'' @ [newline])"
proof -
  have s: "store_of a b 2 = source_of []" for a b
    by (simp add: store_of_def)
  from relay_terminated_chunk [of "connected (Some 0) (Some 2)" 1 "''hello'' @ [newline]" 0
      "store_of (source_of [(''hello'' @ [newline], None)]) (source_of [])" None "[]" 2]
  have "\<exists>h'. Send (connected (Some 0) (Some 2))
            (store_of (source_of [(''hello'' @ [newline], None)]) (source_of [])) =
          Some (None, connected (Some 0) (Some 2), h') \<and>
          wr_data (h' 1) = ''hello'' @ [newline] \<and> wr_calls (h' 1) = 1"
    by (simp add: connected_def NewClient_def store_of_simps source_of_def defaultBufSize_def)
  moreover
  from relay_terminated_chunk [of "connected (Some 0) (Some 2)" 1 "''world'' @ [newline]" 0
      "store_of (source_of []) (source_of [(''world'' @ [newline], None)])" None "[]" 2]
  have "\<exists>h'. Receive (connected (Some 0) (Some 2))
            (store_of (source_of []) (source_of [(''world'' @ [newline], None)])) =
          Some (None, connected (Some 0) (Some 2), h') \<and>
          wr_data (h' 2) = ''world'' @ [newline] \<and> wr_calls (h' 2) = 1"
    by (simp add: connected_def NewClient_def store_of_simps s source_of_def defaultBufSize_def)
  ultimately show ?thesis by auto
qed

text \<open>
  C7 as stated fails on content longer than the buffer: of 4097 terminators that the
  input stream has ready, one \<^verbatim>\<open>Send\<close> writes the first 4096 to the connection
  and leaves the last one in the stream.
\<close>

theorem Send_stops_at_buffer_size:
  "Send (connected (Some 0) None)
        (store_of (source_of [(replicate 4097 newline, None)]) (source_of [])) =
     Some (None, connected (Some 0) None,
           store_of ((source_of [([newline], None)])\<lparr>rd_calls := 1\<rparr>)
                    ((source_of [])\<lparr>wr_data := replicate 4096 newline, wr_calls := 1\<rparr>)) \<and>
   replicate 4096 newline \<noteq> replicate 4097 newline"
proof -
  let ?s = "source_of [(replicate 4097 newline, None)]"
  let ?s' = "(source_of [([newline], None)])\<lparr>rd_calls := 1\<rparr>"
  have R: "Read_io ?s defaultBufSize = ((replicate 4096 newline, None), ?s')"
    by (simp add: Read_io_def source_of_def defaultBufSize_def)
  have r: "readOut ?s = (Inr (replicate 4096 newline), ?s')"
    by (rule readOut_one_read [OF R]) simp_all
  have w: "writeOut (source_of []) (replicate 4096 newline) =
             (None, (source_of [])\<lparr>wr_data := replicate 4096 newline, wr_calls := 1\<rparr>)"
    by (simp add: writeOut_def Write_io_def source_of_def)
  have "Send (connected (Some 0) None) (store_of ?s (source_of [])) =
     Some (None, connected (Some 0) None,
           store_of ?s' ((source_of [])\<lparr>wr_data := replicate 4096 newline, wr_calls := 1\<rparr>))"
    by (simp add: Send_def connected_def NewClient_def store_of_simps r w RLock_def RUnlock_def)
  then show ?thesis by simp
qed

text \<open>
  C8, at an input the code can get: a timeout of zero and an address where something
  listens. \<^verbatim>\<open>Connect\<close> checks nothing itself, the dial takes zero for "no
  timeout", and the call succeeds with the connection stored.
\<close>

theorem Connect_zero_timeout_succeeds:
  "Connect (\<lambda>n a t. Inr 1) (NewClient ''127.0.0.1:4242'' 0 None None) =
     Some (None, (NewClient ''127.0.0.1:4242'' 0 None None)\<lparr>conn := Some 1\<rparr>) \<and>
   Connect (DialTimeout [''127.0.0.1:4242'' \<mapsto> 1]) (NewClient ''127.0.0.1:4242'' 0 None None) =
     Some (None, (NewClient ''127.0.0.1:4242'' 0 None None)\<lparr>conn := Some 1\<rparr>)"
  by (simp add: Connect_def DialTimeout_def NewClient_def RLock_def RUnlock_def Lock_def
      Unlock_def)

text \<open>
  C9, at an input the code can get: a client that was never connected. \<^verbatim>\<open>Send\<close>
  returns its error with the read lock still held, and the \<^verbatim>\<open>Close\<close> that
  follows waits for that lock for ever; so does a \<^verbatim>\<open>Connect\<close> whose dial
  succeeded. The same holds after \<^verbatim>\<open>Receive\<close>.
\<close>

theorem early_return_keeps_read_lock:
  "(case Send (NewClient ''localhost:4242'' 10000000000 (Some 0) (Some 2))
           (store_of (source_of []) (source_of [])) of
      None \<Rightarrow> False
    | Some (e, c', h') \<Rightarrow>
        e = Some (NilParameter ''input_stream'' True False) \<and> readers (mu c') = 1 \<and>
        Close c' h' = None \<and> Connect (\<lambda>n a t. Inr 1) c' = None) \<and>
   (case Receive (NewClient ''localhost:4242'' 10000000000 (Some 0) (Some 2))
           (store_of (source_of []) (source_of [])) of
      None \<Rightarrow> False
    | Some (e, c', h') \<Rightarrow>
        e = Some (NilParameter ''output_stream'' True False) \<and> readers (mu c') = 1 \<and>
        Close c' h' = None \<and> Connect (\<lambda>n a t. Inr 1) c' = None)"
  by (simp add: NewClient_def Send_def Receive_def Close_def Connect_def
      RLock_def RUnlock_def Lock_def Unlock_def)

text \<open>
  C10. \<^verbatim>\<open>readOut\<close> never returns success with no bytes. So when \<^verbatim>\<open>Send\<close>
  returns \<^verbatim>\<open>ErrEOT\<close>, the connection and the input stream were there and it is
  \<^verbatim>\<open>readOut\<close> that returned it: the test \<^verbatim>\<open>len(data) == 0\<close> in \<^verbatim>\<open>Send\<close> is
  never true.
\<close>

theorem readOut_never_empty:
  "(\<forall>data s'. readOut s = (Inr data, s') \<longrightarrow> length data \<noteq> 0) \<and>
   (\<forall>c' h'. Send c h = Some (Some ErrEOT, c', h') \<longrightarrow>
      conn c \<noteq> None \<and> inp c \<noteq> None \<and> fst (readOut (h (the (inp c)))) = Inl ErrEOT)"
proof (intro conjI allI impI)
  fix data s' assume "readOut s = (Inr data, s')"
  from readOut_nonempty [OF this] show "length data \<noteq> 0" by simp
next
  fix c' h' assume S: "Send c h = Some (Some ErrEOT, c', h')"
  then show "conn c \<noteq> None"
    by (auto simp: Send_def split: option.splits if_splits)
  from S show "inp c \<noteq> None"
    by (auto simp: Send_def split: option.splits if_splits)
  obtain r s1 where R: "readOut (h (the (inp c))) = (r, s1)" by (metis surj_pair)
  show "fst (readOut (h (the (inp c)))) = Inl ErrEOT"
  proof (cases r)
    case (Inl e)
    with S R show ?thesis
      by (auto simp: Send_def Let_def split: option.splits if_splits)
  next
    case (Inr data)
    with R readOut_nonempty have "data \<noteq> []" by blast
    with S R Inr show ?thesis
      by (auto simp: Send_def Let_def writeOut_def split: option.splits if_splits prod.splits)
  qed
qed

theorem readOut_never_empty_witness:
  "readOut (source_of [(''hello'' @ [newline], None)]) =
     (Inr (''hello'' @ [newline]), (source_of [])\<lparr>rd_calls := 1\<rparr>) \<and>
   length (''hello'' @ [newline]) \<noteq> 0 \<and>
   Send (connected (Some 0) None) (store_of (source_of []) (source_of [])) =
     Some (Some ErrEOT, connected (Some 0) None,
           store_of ((source_of [])\<lparr>rd_calls := 1\<rparr>) (source_of [])) \<and>
   fst (readOut (store_of (source_of []) (source_of []) (the (inp (connected (Some 0) None))))) =
     Inl ErrEOT"
proof -
  have R: "Read_io (source_of [(''hello'' @ [newline], None)]) defaultBufSize =
             ((''hello'' @ [newline], None), (source_of [])\<lparr>rd_calls := 1\<rparr>)"
    by (simp add: Read_io_def source_of_def defaultBufSize_def)
  have r1: "readOut (source_of [(''hello'' @ [newline], None)]) =
              (Inr (''hello'' @ [newline]), (source_of [])\<lparr>rd_calls := 1\<rparr>)"
    by (rule readOut_one_read [OF R]) simp_all
  have E: "Read_io (source_of []) defaultBufSize = (([], Some EOF), (source_of [])\<lparr>rd_calls := 1\<rparr>)"
    by (simp add: Read_io_def source_of_def)
  have r2: "readOut (source_of []) = (Inl ErrEOT, (source_of [])\<lparr>rd_calls := 1\<rparr>)"
    by (rule readOut_at_end [OF E])
  have S: "Send (connected (Some 0) None) (store_of (source_of []) (source_of [])) =
     Some (Some ErrEOT, connected (Some 0) None,
           store_of ((source_of [])\<lparr>rd_calls := 1\<rparr>) (source_of []))"
    by (simp add: Send_def connected_def NewClient_def store_of_simps r2 RLock_def RUnlock_def)
  from readOut_never_empty [of "source_of [(''hello'' @ [newline], None)]"
      "connected (Some 0) None" "store_of (source_of []) (source_of [])"] r1 S
  show ?thesis by (simp add: connected_def NewClient_def store_of_simps)
qed

end
